theory Spec2Isabelle
  imports Complex_Main "HOL-Library.Sublist"
begin

section \<open>Strings\<close>

text \<open>
  Strings are lists of \<^typ>\<open>char\<close>. The delimiter \<open>~\<close> and every character the
  search bar inspects (\<open>?\<close>, \<open>&\<close>, \<open>=\<close>, \<open>#\<close>) is ASCII, so the code sees the same
  positions whether the text is read as UTF-16 units or as UTF-8 bytes.
\<close>

definition tilde :: char where
  "tilde = CHR ''~''"

text \<open>\<open>s.split(sep)\<close> for a one-character separator: the segments between the
  occurrences of \<open>sep\<close>; the empty string gives one empty segment.\<close>

fun splitOn :: "char \<Rightarrow> string \<Rightarrow> string \<Rightarrow> string list" where
  "splitOn sep acc [] = [acc]"
| "splitOn sep acc (c # cs) =
     (if c = sep then acc # splitOn sep [] cs else splitOn sep (acc @ [c]) cs)"

definition split :: "char \<Rightarrow> string \<Rightarrow> string list" where
  "split sep s = splitOn sep [] s"

text \<open>\<open>s.startsWith(p)\<close>.\<close>

fun startsWith :: "string \<Rightarrow> string \<Rightarrow> bool" where
  "startsWith s [] = True"
| "startsWith [] (p # ps) = False"
| "startsWith (c # cs) (p # ps) = (c = p \<and> startsWith cs ps)"

text \<open>\<open>xs.join(sep)\<close>.\<close>

fun join :: "string \<Rightarrow> string list \<Rightarrow> string" where
  "join sep [] = []"
| "join sep [x] = x"
| "join sep (x # y # ys) = x @ sep @ join sep (y # ys)"

section \<open>The term codec\<close>

text \<open>\<open>term.replace(/~/g, "~~")\<close>: every \<open>~\<close> is doubled.\<close>

definition escapeTerm :: "string \<Rightarrow> string" where
  "escapeTerm t = concat (map (\<lambda>c. if c = tilde then [tilde, tilde] else [c]) t)"

text \<open>\<open>terms.map((term) => term.replace(/~/g, "~~")).join("~")\<close>, the argument of
  \<open>encodeURIComponent\<close> in the \<open>autocomplete:selected\<close> handler.\<close>

definition encode :: "string list \<Rightarrow> string" where
  "encode ts = join [tilde] (map escapeTerm ts)"

text \<open>
  \<open>param.split(/(?<!~)~(?!~)/)\<close>. A match is one \<open>~\<close> whose left neighbour in the
  whole string is not \<open>~\<close> (or which is first) and whose right neighbour is not \<open>~\<close>
  (or which is last). The flag \<open>p\<close> says that the character before the current one
  is \<open>~\<close>; \<open>acc\<close> is the segment read so far.
\<close>

fun splitLone :: "bool \<Rightarrow> string \<Rightarrow> string \<Rightarrow> string list" where
  "splitLone p acc [] = [acc]"
| "splitLone p acc (c # cs) =
     (if c = tilde \<and> \<not> p \<and> (case cs of [] \<Rightarrow> True | d # _ \<Rightarrow> d \<noteq> tilde)
      then acc # splitLone True [] cs
      else splitLone (c = tilde) (acc @ [c]) cs)"

text \<open>\<open>each.replace(/~~/g, "~")\<close>: the matches are taken from the left and do not
  overlap.\<close>

fun unescapeTerm :: "string \<Rightarrow> string" where
  "unescapeTerm (a # b # cs) =
     (if a = tilde \<and> b = tilde then tilde # unescapeTerm cs
      else a # unescapeTerm (b # cs))"
| "unescapeTerm cs = cs"

text \<open>The term list of the highlight effect: split, drop the empty segments,
  unescape each segment.\<close>

definition decode :: "string \<Rightarrow> string list" where
  "decode param =
     map unescapeTerm (filter (\<lambda>each. length each > 0) (splitLone False [] param))"

section \<open>Percent-encoding\<close>

text \<open>
  \<open>encodeURIComponent\<close> of the language: a character of the unreserved set
  (letters, digits and \<open>- _ . ! ~ * ' ( )\<close>) is kept, every other one is written as
  the bytes of its UTF-8 form, each as \<open>%\<close> and two upper-case hexadecimal digits.
  Strings are read here as their UTF-8 bytes, so each \<^typ>\<open>char\<close> outside the
  unreserved set becomes one \<open>%XX\<close>.
\<close>

definition uriUnreserved :: "char \<Rightarrow> bool" where
  "uriUnreserved c \<longleftrightarrow>
     c \<in> set (''ABCDEFGHIJKLMNOPQRSTUVWXYZ'' @ ''abcdefghijklmnopqrstuvwxyz'' @
              ''0123456789'' @ ''-_.!~*()'' @ [CHR 0x27])"

definition hexDigit :: "nat \<Rightarrow> char" where
  "hexDigit n = ''0123456789ABCDEF'' ! (n mod 16)"

definition pctEncode :: "char \<Rightarrow> string" where
  "pctEncode c = [CHR ''%'', hexDigit (of_char c div 16), hexDigit (of_char c mod 16)]"

definition encodeURIComponent :: "string \<Rightarrow> string" where
  "encodeURIComponent s = concat (map (\<lambda>c. if uriUnreserved c then [c] else pctEncode c) s)"

section \<open>Reading a query parameter\<close>

text \<open>\<open>getQueryParamter(location, name)\<close>, on \<open>location.search\<close>: a leading \<open>?\<close> is
  cut off, the rest is split at \<open>&\<close>, and the first pair that starts with \<open>name=\<close>
  gives its remainder; \<open>null\<close> is \<open>None\<close>.\<close>

definition getQueryParamter :: "string \<Rightarrow> string \<Rightarrow> string option" where
  "getQueryParamter search name =
     (let search' = (if startsWith search ''?'' then drop 1 search else search);
          pre = name @ ''=''
      in map_option (drop (length pre))
           (List.find (\<lambda>pair. startsWith pair pre) (split (CHR ''&'') search')))"

section \<open>The highlight effect\<close>

text \<open>What the effect reads of the page: \<open>location.search\<close>,
  \<open>window.location.pathname\<close>, and the elements that
  \<open>getElementsByTagName\<close> returns for \<open>article\<close> and for \<open>main\<close>.\<close>

record 'e page =
  search :: string
  pathname :: string
  articles :: "'e list"
  mains :: "'e list"

definition isDocsOrBlog :: "string \<Rightarrow> string \<Rightarrow> string \<Rightarrow> 'e page \<Rightarrow> bool" where
  "isDocsOrBlog baseUrl docsBasePath blogBasePath pg \<longleftrightarrow>
     startsWith (pathname pg) (baseUrl @ docsBasePath) \<or>
     startsWith (pathname pg) (baseUrl @ blogBasePath)"

text \<open>\<open>elements[0]\<close>, which is \<open>undefined\<close> on an empty collection.\<close>

fun firstElement :: "'e list \<Rightarrow> 'e option" where
  "firstElement [] = None"
| "firstElement (e # _) = Some e"

text \<open>The clean-up function an effect returns; \<open>NoTeardown\<close> is the bare \<open>return\<close>.\<close>

datatype 'e teardown = NoTeardown | Unmark 'e

text \<open>
  The effect, passing the document tree through. \<open>mark terms root\<close> stands for
  \<open>new Mark(root).mark(terms, options)\<close> of the marking library, the only place where
  the effect changes the tree.
\<close>

definition highlightEffect ::
  "(string list \<Rightarrow> 'e \<Rightarrow> 'd \<Rightarrow> 'd) \<Rightarrow> string \<Rightarrow> string \<Rightarrow> string \<Rightarrow> 'e page \<Rightarrow> 'd
     \<Rightarrow> 'd \<times> 'e teardown" where
  "highlightEffect mark baseUrl docsBasePath blogBasePath pg tree =
     (case getQueryParamter (search pg) ''highlight'' of
        None \<Rightarrow> (tree, NoTeardown)
      | Some param \<Rightarrow>
          if param = [] then (tree, NoTeardown)
          else
            (case (if isDocsOrBlog baseUrl docsBasePath blogBasePath pg
                   then firstElement (articles pg) else firstElement (mains pg)) of
               None \<Rightarrow> (tree, NoTeardown)
             | Some rootEl \<Rightarrow>
                 (let ts = decode param
                  in if length ts = 0 then (tree, NoTeardown)
                     else (mark ts rootEl tree, Unmark rootEl))))"

text \<open>Running the clean-up: \<open>mark.unmark(options)\<close> when there is one.\<close>

fun runTeardown :: "('e \<Rightarrow> 'd \<Rightarrow> 'd) \<Rightarrow> 'e teardown \<Rightarrow> 'd \<Rightarrow> 'd" where
  "runTeardown unmark NoTeardown tree = tree"
| "runTeardown unmark (Unmark rootEl) tree = unmark rootEl tree"

section \<open>Building the query\<close>

datatype wildcard = NONE | LEADING | TRAILING

datatype presence = OPTIONAL | REQUIRED | PROHIBITED

text \<open>The first argument of \<open>query.term\<close>: the array of terms or one string.\<close>

datatype term_arg = TermArray "string list" | TermString string

text \<open>The options object of \<open>query.term\<close>; a key that the call leaves out is \<open>None\<close>.\<close>

record options =
  fieldNames :: "string list"
  boost :: nat
  wildcard :: "wildcard option"
  presence :: "presence option"

text \<open>A query under construction is the sequence of \<open>query.term\<close> calls made on it.\<close>

type_synonym query = "(term_arg \<times> options) list"

definition query_term :: "term_arg \<Rightarrow> options \<Rightarrow> query \<Rightarrow> query" where
  "query_term t opts q = q @ [(t, opts)]"

text \<open>The callback handed to \<open>index.query\<close>.\<close>

definition buildQuery :: "bool \<Rightarrow> string \<Rightarrow> string list \<Rightarrow> query \<Rightarrow> query" where
  "buildQuery versioningEnabled versionToSearch ts q =
     (let q1 = query_term (TermArray ts)
                 \<lparr>fieldNames = [''title''], boost = 5, wildcard = None, presence = None\<rparr> q;
          q2 = query_term (TermArray ts)
                 \<lparr>fieldNames = [''title''], boost = 5, wildcard = Some TRAILING, presence = None\<rparr> q1;
          q3 = query_term (TermArray ts)
                 \<lparr>fieldNames = [''content''], boost = 1, wildcard = None, presence = None\<rparr> q2;
          q4 = query_term (TermArray ts)
                 \<lparr>fieldNames = [''content''], boost = 1, wildcard = Some TRAILING, presence = None\<rparr> q3
      in if versioningEnabled
         then query_term (TermString versionToSearch)
                \<lparr>fieldNames = [''version''], boost = 0, wildcard = None, presence = Some REQUIRED\<rparr> q4
         else q4)"

section \<open>Ranking the results\<close>

text \<open>A document identifier of the loaded table is a number or a string;
  \<open>toString\<close> writes a number in decimal.\<close>

datatype doc_id = IdNumber nat | IdString string

definition digitChar :: "nat \<Rightarrow> char" where
  "digitChar n = ''0123456789'' ! (n mod 10)"

fun natToString :: "nat \<Rightarrow> string" where
  "natToString n =
     (if n < 10 then [digitChar n] else natToString (n div 10) @ [digitChar (n mod 10)])"

declare natToString.simps [simp del]

fun toString :: "doc_id \<Rightarrow> string" where
  "toString (IdNumber n) = natToString n"
| "toString (IdString s) = s"

record doc =
  id_doc :: doc_id
  pageTitle :: string
  sectionTitle :: string
  sectionRoute :: string

text \<open>One entry of what \<open>index.query\<close> returns.\<close>

record lunr_result =
  ref :: string
  score :: real

text \<open>One entry handed to the dropdown; \<open>document\<close> is \<open>None\<close> where
  \<open>documents.find\<close> returned \<open>undefined\<close>.\<close>

record search_result =
  document :: "doc option"
  sr_score :: real
  terms :: "string list"

text \<open>\<open>.filter((result) => result.score > 0).slice(0, 8).map(...)\<close>.\<close>

definition rank :: "doc list \<Rightarrow> string list \<Rightarrow> lunr_result list \<Rightarrow> search_result list" where
  "rank documents ts results =
     map (\<lambda>result.
            \<lparr>document = List.find (\<lambda>d. toString (id_doc d) = ref result) documents,
             sr_score = score result,
             terms = ts\<rparr>)
         (take 8 (filter (\<lambda>result. score result > 0) results))"

text \<open>The \<open>source\<close> function of the dropdown. The tokenizer and the index engine are
  libraries; they enter as parameters.\<close>

definition source ::
  "(string \<Rightarrow> string list) \<Rightarrow> (query \<Rightarrow> lunr_result list) \<Rightarrow> doc list \<Rightarrow> bool \<Rightarrow> string
     \<Rightarrow> string \<Rightarrow> search_result list" where
  "source tokenize indexQuery documents versioningEnabled versionToSearch input =
     (let ts = tokenize input
      in rank documents ts (indexQuery (buildQuery versioningEnabled versionToSearch ts [])))"

section \<open>Selecting a result\<close>

datatype error = TypeError

text \<open>
  The URL built from the pieces of \<open>sectionRoute.split("#")\<close>: the first piece is the
  path, the second, when there is one and it is not empty, is put back after the
  highlight parameter. The destructuring of an empty array would leave \<open>path\<close>
  undefined, which the string concatenation writes as \<open>undefined\<close>.
\<close>

fun pushUrl :: "string list \<Rightarrow> string \<Rightarrow> string" where
  "pushUrl (path # hash # _) enc =
     (if hash \<noteq> [] then path @ ''?highlight='' @ enc @ ''#'' @ hash
      else path @ ''?highlight='' @ enc)"
| "pushUrl [path] enc = path @ ''?highlight='' @ enc"
| "pushUrl [] enc = ''undefined?highlight='' @ enc"

definition selectedUrl :: "string \<Rightarrow> string list \<Rightarrow> string" where
  "selectedUrl route ts = pushUrl (split (CHR ''#'') route) (encodeURIComponent (encode ts))"

text \<open>The \<open>autocomplete:selected\<close> handler returns the URL given to \<open>history.push\<close>;
  reading \<open>sectionRoute\<close> of a missing document throws.\<close>

definition selected :: "search_result \<Rightarrow> error + string" where
  "selected r =
     (case document r of
        None \<Rightarrow> Inl TypeError
      | Some d \<Rightarrow> Inr (selectedUrl (sectionRoute d) (terms r)))"

section \<open>Loading the index once\<close>

datatype index_state = Empty | Loading | Done

datatype intent = Focus | MouseOver | IconClick

text \<open>What happens on the event loop: an intent of the user, or the joint promise of
  the index and the dropdown library settling.\<close>

datatype event = Intent intent | Resolved | Rejected

text \<open>\<open>indexState.current\<close>, \<open>focusAfterIndexLoaded.current\<close>, the number of
  \<open>fetchIndex\<close> calls made so far and the number of joint promises not yet settled.\<close>

record session =
  indexState :: index_state
  focusAfterIndexLoaded :: bool
  fetches :: nat
  pending :: nat

definition initial :: session where
  "initial = \<lparr>indexState = Empty, focusAfterIndexLoaded = False, fetches = 0, pending = 0\<rparr>"

text \<open>\<open>loadIndex\<close> up to its \<open>await\<close>: the test and the assignment run in one turn
  of the event loop.\<close>

definition loadIndex :: "session \<Rightarrow> session" where
  "loadIndex s =
     (if indexState s \<noteq> Empty then s
      else s\<lparr>indexState := Loading, fetches := fetches s + 1, pending := pending s + 1\<rparr>)"

text \<open>\<open>loadIndex\<close> after its \<open>await\<close>; it runs only when the promise is fulfilled.\<close>

definition loadIndexResume :: "session \<Rightarrow> session" where
  "loadIndexResume s = s\<lparr>indexState := Done, pending := pending s - 1\<rparr>"

fun step :: "session \<Rightarrow> event \<Rightarrow> session" where
  "step s (Intent Focus) = loadIndex (s\<lparr>focusAfterIndexLoaded := True\<rparr>)"
| "step s (Intent MouseOver) = loadIndex s"
| "step s (Intent IconClick) = loadIndex s"
| "step s Resolved = (if pending s > 0 then loadIndexResume s else s)"
| "step s Rejected = (if pending s > 0 then s\<lparr>pending := pending s - 1\<rparr> else s)"

definition run :: "session \<Rightarrow> event list \<Rightarrow> session" where
  "run s evs = foldl step s evs"

definition stateRank :: "index_state \<Rightarrow> nat" where
  "stateRank st = (case st of Empty \<Rightarrow> 0 | Loading \<Rightarrow> 1 | Done \<Rightarrow> 2)"

text \<open>The characters other than the delimiter.\<close>

abbreviation (input) notTilde :: "char \<Rightarrow> bool" where
  "notTilde \<equiv> (\<lambda>c. c \<noteq> tilde)"

text \<open>What holds of the session in every state the events can reach: before the
  first intent nothing was fetched, and afterwards exactly one fetch was made, which is
  still pending only while the state is \<open>Loading\<close>.\<close>

definition gate_inv :: "session \<Rightarrow> bool" where
  "gate_inv s \<longleftrightarrow>
     (case indexState s of
        Empty \<Rightarrow> fetches s = 0 \<and> pending s = 0
      | Loading \<Rightarrow> fetches s = 1 \<and> pending s \<le> 1
      | Done \<Rightarrow> fetches s = 1 \<and> pending s = 0)"

section \<open>Facts about the string functions\<close>

lemma splitOn_no_sep:
  "sep \<notin> set a \<Longrightarrow> splitOn sep acc (a @ rest) = splitOn sep (acc @ a) rest"
  by (induction a arbitrary: acc) auto

lemma split_no_sep: "sep \<notin> set a \<Longrightarrow> split sep a = [a]"
  using splitOn_no_sep[of sep a "[]" "[]"] by (simp add: split_def)

lemma split_first: "sep \<notin> set a \<Longrightarrow> split sep (a @ sep # b) = a # split sep b"
  using splitOn_no_sep[of sep a "[]" "sep # b"] by (simp add: split_def)

lemma escapeTerm_Cons:
  "escapeTerm (c # t) = (if c = tilde then [tilde, tilde] else [c]) @ escapeTerm t"
  by (simp add: escapeTerm_def)

lemma escapeTerm_empty: "escapeTerm t = [] \<longleftrightarrow> t = []"
  by (cases t) (simp_all add: escapeTerm_def)

lemma escapeTerm_hd: "t \<noteq> [] \<Longrightarrow> hd t \<noteq> tilde \<Longrightarrow> \<exists>cs. escapeTerm t = hd t # cs"
  by (cases t) (simp_all add: escapeTerm_def)

lemma unescapeTerm_Cons: "a \<noteq> tilde \<Longrightarrow> unescapeTerm (a # s) = a # unescapeTerm s"
  by (cases s) simp_all

lemma unescapeTerm_escapeTerm: "unescapeTerm (escapeTerm t) = t"
proof (induction t)
  case Nil
  then show ?case by (simp add: escapeTerm_def)
next
  case (Cons c t)
  then show ?case by (simp add: escapeTerm_Cons unescapeTerm_Cons)
qed

section \<open>The codec on the examples\<close>

text \<open>
  C8. On the examples of the specification: encoding the single term \<open>a~b\<close> gives
  \<open>a~~b\<close>, decoding \<open>a~~b\<close> gives the single term \<open>a~b\<close>, and decoding \<open>a~b\<close>
  gives the two terms \<open>a\<close> and \<open>b\<close>.
\<close>

theorem codec_examples:
  "encode [''a~b''] = ''a~~b'' \<and> decode ''a~~b'' = [''a~b''] \<and> decode ''a~b'' = [''a'', ''b'']"
  by (simp add: encode_def escapeTerm_def decode_def tilde_def)

section \<open>The round trip of the codec\<close>

text \<open>
  C1. Decoding the encoding of a sequence of non-empty terms should give the sequence
  back. It does not when a term ends with the delimiter and another term follows: the
  two terms \<open>a~\<close> and \<open>b\<close> are encoded as \<open>a~~~b\<close>, where no \<open>~\<close> stands alone, so
  the decoder finds a single segment and returns the one term \<open>a~~b\<close>.
\<close>

theorem round_trip_fails_at_term_boundary:
  "encode [''a~'', ''b''] = ''a~~~b''
   \<and> decode (encode [''a~'', ''b'']) = [''a~~b'']
   \<and> decode (encode [''a~'', ''b'']) \<noteq> [''a~'', ''b'']"
  by (simp add: encode_def escapeTerm_def decode_def tilde_def)

text \<open>
  Inside a term the scheme works: an escaped term never contains a lone delimiter,
  whatever surrounds it, so the splitter runs through it without cutting.
\<close>

lemma splitLone_escapeTerm:
  "splitLone p acc (escapeTerm t @ rest)
     = splitLone (if t = [] then p else last t = tilde) (acc @ escapeTerm t) rest"
proof (induction t arbitrary: p acc)
  case Nil
  then show ?case by (simp add: escapeTerm_def)
next
  case (Cons c t)
  show ?case
  proof (cases "c = tilde")
    case True
    then show ?thesis
      using Cons[of True "acc @ [tilde, tilde]"] by (simp add: escapeTerm_Cons)
  next
    case False
    then show ?thesis
      using Cons[of False "acc @ [c]"] by (simp add: escapeTerm_Cons)
  qed
qed

lemma splitLone_encode:
  assumes "\<forall>t \<in> set (t # ts). t \<noteq> [] \<and> hd t \<noteq> tilde \<and> last t \<noteq> tilde"
  shows "splitLone p [] (encode (t # ts)) = map escapeTerm (t # ts)"
  using assms
proof (induction ts arbitrary: t p)
  case Nil
  then show ?case
    using splitLone_escapeTerm[of p "[]" t "[]"] by (simp add: encode_def)
next
  case (Cons u ts)
  from Cons.prems obtain cs where cs: "escapeTerm u = hd u # cs" and hu: "hd u \<noteq> tilde"
    using escapeTerm_hd[of u] by auto
  have enc: "encode (t # u # ts) = escapeTerm t @ tilde # encode (u # ts)"
    by (simp add: encode_def)
  have "\<exists>ds. encode (u # ts) = hd u # ds"
    using cs by (cases ts) (simp_all add: encode_def)
  then obtain ds where ds: "encode (u # ts) = hd u # ds" ..
  have "splitLone p [] (encode (t # u # ts))
          = splitLone False (escapeTerm t) (tilde # encode (u # ts))"
    using Cons.prems splitLone_escapeTerm[of p "[]" t "tilde # encode (u # ts)"]
    by (simp add: enc)
  also have "\<dots> = escapeTerm t # splitLone True [] (encode (u # ts))"
    using hu by (simp add: ds)
  also have "splitLone True [] (encode (u # ts)) = map escapeTerm (u # ts)"
    by (rule Cons.IH) (use Cons.prems in simp)
  finally show ?case by simp
qed

text \<open>
  So the round trip does hold for the sequences in which every term is non-empty and
  neither begins nor ends with the delimiter.
\<close>

lemma round_trip_without_border_delimiters:
  assumes "\<forall>t \<in> set ts. t \<noteq> [] \<and> hd t \<noteq> tilde \<and> last t \<noteq> tilde"
  shows "decode (encode ts) = ts"
proof (cases ts)
  case Nil
  then show ?thesis by (simp add: decode_def encode_def)
next
  case (Cons t us)
  with assms have s: "splitLone False [] (encode ts) = map escapeTerm ts"
    using splitLone_encode[of t us False] by simp
  have "filter (\<lambda>each. length each > 0) (map escapeTerm ts) = map escapeTerm ts"
    using assms by (simp add: filter_id_conv escapeTerm_empty)
  then show ?thesis
    by (simp add: decode_def s unescapeTerm_escapeTerm map_idI)
qed

lemma round_trip_without_border_delimiters_example:
  "decode (encode [''a~b'', ''c'']) = [''a~b'', ''c'']"
  by (rule round_trip_without_border_delimiters) (simp add: tilde_def)

section \<open>The highlight effect with nothing to highlight\<close>

lemma decode_Nil: "decode [] = []"
  by (simp add: decode_def)

lemma firstElement_None: "firstElement xs = None \<longleftrightarrow> xs = []"
  by (cases xs) simp_all

text \<open>
  C9. Decoding the empty string gives no terms. When the \<open>highlight\<close> parameter is
  absent, or it decodes to no terms, or the page has no content root element, the
  effect leaves the document tree as it was and returns no clean-up, so that running
  the clean-up changes nothing either.
\<close>

theorem highlight_nothing:
  "decode [] = []
   \<and> (getQueryParamter (search pg) ''highlight'' = None
       \<or> (\<exists>param. getQueryParamter (search pg) ''highlight'' = Some param \<and> decode param = [])
       \<or> (if isDocsOrBlog baseUrl docsBasePath blogBasePath pg
           then articles pg = [] else mains pg = [])
      \<longrightarrow> highlightEffect mark baseUrl docsBasePath blogBasePath pg tree = (tree, NoTeardown)
          \<and> runTeardown unmark
                (snd (highlightEffect mark baseUrl docsBasePath blogBasePath pg tree)) tree
              = tree)"
proof -
  have "highlightEffect mark baseUrl docsBasePath blogBasePath pg tree = (tree, NoTeardown)"
    if "getQueryParamter (search pg) ''highlight'' = None
       \<or> (\<exists>param. getQueryParamter (search pg) ''highlight'' = Some param \<and> decode param = [])
       \<or> (if isDocsOrBlog baseUrl docsBasePath blogBasePath pg
           then articles pg = [] else mains pg = [])"
    using that
    by (auto simp: highlightEffect_def Let_def firstElement_None split: option.splits if_splits)
  then show ?thesis by (simp add: decode_Nil)
qed

theorem highlight_nothing_witness:
  "(\<exists>param. getQueryParamter ''?highlight=~'' ''highlight'' = Some param \<and> decode param = [])
   \<and> highlightEffect (\<lambda>ts e tree. (e, ts) # tree) ''/'' ''docs'' ''blog''
        \<lparr>search = ''?highlight=~'', pathname = ''/docs/intro'', articles = [1::nat], mains = []\<rparr>
        [] = ([], NoTeardown)"
proof -
  let ?pg = "\<lparr>search = ''?highlight=~'', pathname = ''/docs/intro'',
              articles = [1::nat], mains = []\<rparr>"
  have h: "\<exists>param. getQueryParamter ''?highlight=~'' ''highlight'' = Some param \<and> decode param = []"
    by (simp add: getQueryParamter_def split_def decode_def tilde_def)
  then have "\<exists>param. getQueryParamter (search ?pg) ''highlight'' = Some param \<and> decode param = []"
    by simp
  with highlight_nothing[of ?pg "''/''" "''docs''" "''blog''" "\<lambda>ts e tree. (e, ts) # tree" "[]"]
  have "highlightEffect (\<lambda>ts e tree. (e, ts) # tree) ''/'' ''docs'' ''blog'' ?pg [] = ([], NoTeardown)"
    by blast
  with h show ?thesis by blast
qed

section \<open>The highlight parameter through the URL\<close>

lemma filter_unescapeTerm: "filter notTilde (unescapeTerm s) = filter notTilde s"
  by (induction s rule: unescapeTerm.induct) auto

lemma filter_splitLone:
  "filter notTilde (concat (splitLone p acc s)) = filter notTilde (acc @ s)"
  by (induction s arbitrary: p acc) auto

lemma filter_concat_decode: "filter notTilde (concat (decode s)) = filter notTilde s"
proof -
  have a: "filter notTilde (concat (map unescapeTerm xs)) = filter notTilde (concat xs)"
    for xs :: "string list"
    by (induction xs) (simp_all add: filter_unescapeTerm)
  have b: "concat (filter (\<lambda>each. each \<noteq> []) xs) = concat xs" for xs :: "string list"
    by (induction xs) simp_all
  have "filter notTilde (concat (decode s)) = filter notTilde (concat (splitLone False [] s))"
    by (simp add: decode_def a b)
  then show ?thesis by (simp add: filter_splitLone)
qed

lemma filter_escapeTerm: "filter notTilde (escapeTerm t) = filter notTilde t"
proof (induction t)
  case Nil
  then show ?case by (simp add: escapeTerm_def)
next
  case (Cons c t)
  then show ?case by (simp add: escapeTerm_Cons)
qed

lemma filter_join: "filter notTilde (join [tilde] xs) = filter notTilde (concat xs)"
  by (induction "[tilde]" xs rule: join.induct) simp_all

lemma filter_encode: "filter notTilde (encode ts) = filter notTilde (concat ts)"
proof -
  have "filter notTilde (concat (map escapeTerm ts)) = filter notTilde (concat ts)"
    by (induction ts) (simp_all add: filter_escapeTerm)
  then show ?thesis by (simp add: encode_def filter_join)
qed

lemma hexDigit_set: "hexDigit n \<in> set ''0123456789ABCDEF''"
  unfolding hexDigit_def by (rule nth_mem) simp

lemma pctEncode_set: "set (pctEncode c) \<subseteq> set ''%0123456789ABCDEF''"
  using hexDigit_set[of "of_char c div 16"] hexDigit_set[of "of_char c mod 16"]
  by (auto simp: pctEncode_def)

lemma pctEncode_no_tilde: "tilde \<notin> set (pctEncode c)"
  using pctEncode_set[of c] by (auto simp: tilde_def)

lemma pctEncode_no_amp: "CHR ''&'' \<notin> set (pctEncode c)"
  using pctEncode_set[of c] by auto

lemma uriUnreserved_tilde: "uriUnreserved tilde"
  by (simp add: uriUnreserved_def tilde_def)

lemma filter_encodeURIComponent:
  "filter notTilde (encodeURIComponent s) = encodeURIComponent (filter notTilde s)"
proof (induction s)
  case Nil
  then show ?case by (simp add: encodeURIComponent_def)
next
  case (Cons c s)
  have "filter notTilde (pctEncode c) = pctEncode c"
    using pctEncode_no_tilde[of c] by (auto simp: filter_id_conv)
  with Cons show ?case
    using uriUnreserved_tilde by (auto simp: encodeURIComponent_def)
qed

lemma length_encodeURIComponent:
  "length (encodeURIComponent s) = length s + 2 * length (filter (\<lambda>c. \<not> uriUnreserved c) s)"
  by (induction s) (simp_all add: encodeURIComponent_def pctEncode_def)

lemma encodeURIComponent_fixed:
  "encodeURIComponent s = s \<longleftrightarrow> (\<forall>c \<in> set s. uriUnreserved c)"
proof
  assume "encodeURIComponent s = s"
  then have "length (encodeURIComponent s) = length s" by simp
  then have "filter (\<lambda>c. \<not> uriUnreserved c) s = []"
    by (simp add: length_encodeURIComponent)
  then show "\<forall>c \<in> set s. uriUnreserved c"
    by (simp add: filter_empty_conv)
next
  assume "\<forall>c \<in> set s. uriUnreserved c"
  then show "encodeURIComponent s = s"
    by (induction s) (simp_all add: encodeURIComponent_def)
qed

lemma encodeURIComponent_no_amp: "CHR ''&'' \<notin> set (encodeURIComponent s)"
proof -
  have "\<not> uriUnreserved (CHR ''&'')" by (simp add: uriUnreserved_def)
  then show ?thesis
    using pctEncode_no_amp by (auto simp: encodeURIComponent_def)
qed

lemma getQueryParamter_verbatim:
  assumes "CHR ''&'' \<notin> set v"
  shows "getQueryParamter (''?highlight='' @ v) ''highlight'' = Some v"
proof -
  have "split (CHR ''&'') (''highlight='' @ v) = [''highlight='' @ v]"
    by (rule split_no_sep) (use assms in simp)
  then show ?thesis
    by (simp add: getQueryParamter_def)
qed

text \<open>
  C10. The value of the \<open>highlight\<close> parameter is taken from the search string as it
  stands: what comes back for a percent-encoded fragment is that percent-encoded
  fragment, not its decoding. The terms are then split out of it directly, so the trip
  through the URL can give the original terms back only when
  \<open>encodeURIComponent\<close> leaves every term unchanged.
\<close>

theorem url_round_trip_needs_unchanged_terms:
  "getQueryParamter (''?highlight='' @ encodeURIComponent (encode ts)) ''highlight''
     = Some (encodeURIComponent (encode ts))
   \<and> (decode (encodeURIComponent (encode ts)) = ts
        \<longrightarrow> (\<forall>t \<in> set ts. encodeURIComponent t = t))"
proof -
  have 1: "getQueryParamter (''?highlight='' @ encodeURIComponent (encode ts)) ''highlight''
     = Some (encodeURIComponent (encode ts))"
    by (rule getQueryParamter_verbatim) (rule encodeURIComponent_no_amp)
  have 2: "\<forall>t \<in> set ts. encodeURIComponent t = t"
    if rt: "decode (encodeURIComponent (encode ts)) = ts"
  proof -
    let ?u = "filter notTilde (concat ts)"
    have "?u = filter notTilde (concat (decode (encodeURIComponent (encode ts))))"
      by (simp only: rt)
    also have "\<dots> = filter notTilde (encodeURIComponent (encode ts))"
      by (rule filter_concat_decode)
    also have "\<dots> = encodeURIComponent (filter notTilde (encode ts))"
      by (rule filter_encodeURIComponent)
    also have "\<dots> = encodeURIComponent ?u"
      by (simp only: filter_encode)
    finally have "encodeURIComponent ?u = ?u" by simp
    then have u: "\<forall>c \<in> set ?u. uriUnreserved c"
      by (simp only: encodeURIComponent_fixed)
    show ?thesis
    proof
      fix t assume t: "t \<in> set ts"
      have "uriUnreserved c" if "c \<in> set t" for c
      proof (cases "c = tilde")
        case True
        then show ?thesis by (simp add: uriUnreserved_tilde)
      next
        case False
        with that t have "c \<in> set ?u" by auto
        with u show ?thesis by blast
      qed
      then show "encodeURIComponent t = t"
        by (simp add: encodeURIComponent_fixed)
    qed
  qed
  from 1 2 show ?thesis by blast
qed

theorem url_round_trip_needs_unchanged_terms_witness:
  "decode (encodeURIComponent (encode [''ab'', ''c''])) = [''ab'', ''c'']
   \<and> encodeURIComponent ''ab'' = ''ab'' \<and> encodeURIComponent ''c'' = ''c''"
proof -
  have h: "decode (encodeURIComponent (encode [''ab'', ''c''])) = [''ab'', ''c'']"
    by (simp add: encode_def escapeTerm_def encodeURIComponent_def uriUnreserved_def
        decode_def tilde_def)
  with url_round_trip_needs_unchanged_terms[of "[''ab'', ''c'']"]
  have "\<forall>t \<in> set [''ab'', ''c'']. encodeURIComponent t = t"
    by blast
  then have "encodeURIComponent ''ab'' = ''ab'' \<and> encodeURIComponent ''c'' = ''c''"
    by simp
  with h show ?thesis by blast
qed

text \<open>A term with a space comes back with the space still percent-encoded.\<close>

lemma url_round_trip_changed_term:
  "decode (encodeURIComponent (encode [''a b''])) = [''a%20b'']"
  by (simp add: encode_def escapeTerm_def encodeURIComponent_def uriUnreserved_def
      pctEncode_def hexDigit_def decode_def tilde_def)

section \<open>The query that is built\<close>

text \<open>
  C5. Whatever the input, the query handed to the index is made of four \<open>term\<close>
  calls over the tokenized terms: on the title field with boost 5, without and with a
  trailing wildcard, and on the content field with boost 1, without and with a trailing
  wildcard. When versioning is enabled there is a fifth call, on the version field, for
  the version to search, with boost 0 and required presence; when it is not, there is
  none.
\<close>

theorem query_clauses:
  "buildQuery True versionToSearch (tokenize input) [] =
     [(TermArray (tokenize input),
         \<lparr>fieldNames = [''title''], boost = 5, wildcard = None, presence = None\<rparr>),
      (TermArray (tokenize input),
         \<lparr>fieldNames = [''title''], boost = 5, wildcard = Some TRAILING, presence = None\<rparr>),
      (TermArray (tokenize input),
         \<lparr>fieldNames = [''content''], boost = 1, wildcard = None, presence = None\<rparr>),
      (TermArray (tokenize input),
         \<lparr>fieldNames = [''content''], boost = 1, wildcard = Some TRAILING, presence = None\<rparr>),
      (TermString versionToSearch,
         \<lparr>fieldNames = [''version''], boost = 0, wildcard = None, presence = Some REQUIRED\<rparr>)]
   \<and> buildQuery False versionToSearch (tokenize input) [] =
     [(TermArray (tokenize input),
         \<lparr>fieldNames = [''title''], boost = 5, wildcard = None, presence = None\<rparr>),
      (TermArray (tokenize input),
         \<lparr>fieldNames = [''title''], boost = 5, wildcard = Some TRAILING, presence = None\<rparr>),
      (TermArray (tokenize input),
         \<lparr>fieldNames = [''content''], boost = 1, wildcard = None, presence = None\<rparr>),
      (TermArray (tokenize input),
         \<lparr>fieldNames = [''content''], boost = 1, wildcard = Some TRAILING, presence = None\<rparr>)]"
  by (simp add: buildQuery_def query_term_def)

section \<open>The ranked output\<close>

text \<open>
  C3. No entry of the ranked output has score 0. A result that the index returns with
  score 0, as it does for a document that only the version clause matched, is not
  presented: the output is the same as if the index had not returned it.
\<close>

theorem zero_score_never_ranked:
  "(\<forall>x \<in> set (rank documents ts results). sr_score x \<noteq> 0)
   \<and> (score r = 0 \<longrightarrow>
        rank documents ts (before @ r # after) = rank documents ts (before @ after))"
proof -
  have "\<forall>x \<in> set (rank documents ts results). sr_score x > 0"
    by (auto simp: rank_def dest!: in_set_takeD)
  then have "\<forall>x \<in> set (rank documents ts results). sr_score x \<noteq> 0"
    by fastforce
  then show ?thesis by (simp add: rank_def)
qed

theorem zero_score_never_ranked_witness:
  "rank [] [''guide''] [\<lparr>ref = ''3'', score = 2\<rparr>, \<lparr>ref = ''4'', score = 0\<rparr>]
     = rank [] [''guide''] [\<lparr>ref = ''3'', score = 2\<rparr>]
   \<and> rank [] [''guide''] [\<lparr>ref = ''3'', score = 2\<rparr>]
     = [\<lparr>document = None, sr_score = 2, terms = [''guide'']\<rparr>]
   \<and> sr_score (hd (rank [] [''guide'']
                       [\<lparr>ref = ''3'', score = 2\<rparr>, \<lparr>ref = ''4'', score = 0\<rparr>])) \<noteq> 0"
proof -
  let ?rs = "[\<lparr>ref = ''3'', score = 2\<rparr>, \<lparr>ref = ''4'', score = 0\<rparr>]"
  have z: "score \<lparr>ref = ''4'', score = 0\<rparr> = 0" by simp
  have n: "rank [] [''guide''] [\<lparr>ref = ''3'', score = 2\<rparr>]
             = [\<lparr>document = None, sr_score = 2, terms = [''guide'']\<rparr>]"
    by (simp add: rank_def)
  from zero_score_never_ranked[of "[]" "[''guide'']" ?rs
      "\<lparr>ref = ''4'', score = 0\<rparr>" "[\<lparr>ref = ''3'', score = 2\<rparr>]" "[]"] z
  have e: "rank [] [''guide''] ?rs = rank [] [''guide''] [\<lparr>ref = ''3'', score = 2\<rparr>]"
    and a: "\<forall>x \<in> set (rank [] [''guide''] ?rs). sr_score x \<noteq> 0"
    by simp_all
  from e n have "hd (rank [] [''guide''] ?rs) \<in> set (rank [] [''guide''] ?rs)"
    by simp
  with a have "sr_score (hd (rank [] [''guide''] ?rs)) \<noteq> 0"
    by blast
  with e n show ?thesis by blast
qed

lemma filter_sorted_takeWhile:
  "sorted_wrt (\<lambda>a b. score a \<ge> score b) results \<Longrightarrow>
   filter (\<lambda>x. score x > 0) results = takeWhile (\<lambda>x. score x > 0) results"
proof (induction results)
  case Nil
  then show ?case by simp
next
  case (Cons x xs)
  show ?case
  proof (cases "score x > 0")
    case True
    with Cons show ?thesis by simp
  next
    case False
    with Cons.prems have "\<forall>y \<in> set xs. \<not> score y > 0" by fastforce
    then have "filter (\<lambda>x. score x > 0) xs = []" by (simp add: filter_empty_conv)
    with False show ?thesis by simp
  qed
qed

lemma take_filter_sorted:
  assumes "sorted_wrt (\<lambda>a b. score a \<ge> score b) results"
    and "8 \<le> length (filter (\<lambda>x. score x > 0) results)"
  shows "take 8 (filter (\<lambda>x. score x > 0) results) = take 8 results"
proof -
  let ?k = "length (takeWhile (\<lambda>x. score x > 0) results)"
  have f: "filter (\<lambda>x. score x > 0) results = take ?k results"
    using assms(1) by (simp add: filter_sorted_takeWhile takeWhile_eq_take[symmetric])
  with assms(2) have "8 \<le> ?k" by (simp add: filter_sorted_takeWhile[OF assms(1)])
  then have "take 8 (take ?k results) = take 8 results" by (simp add: min_def)
  with f show ?thesis by simp
qed

text \<open>
  C4. The ranked output follows a subsequence of what the index returned, in the same
  order, and has at most 8 entries. With at least 8 results of positive score it has
  exactly 8; and when the index returned its results by descending score, these are the
  first 8 of them, and no result left out scores higher than one that is in.
\<close>

theorem rank_order_and_truncation:
  "(\<exists>rs. subseq rs results \<and>
         rank documents ts results =
           map (\<lambda>r. \<lparr>document = List.find (\<lambda>d. toString (id_doc d) = ref r) documents,
                     sr_score = score r, terms = ts\<rparr>) rs)
   \<and> length (rank documents ts results) \<le> 8
   \<and> (8 \<le> length (filter (\<lambda>x. score x > 0) results) \<longrightarrow>
        length (rank documents ts results) = 8)
   \<and> (sorted_wrt (\<lambda>a b. score a \<ge> score b) results \<and>
        8 \<le> length (filter (\<lambda>x. score x > 0) results) \<longrightarrow>
        map sr_score (rank documents ts results) = map score (take 8 results) \<and>
        (\<forall>r \<in> set (drop 8 results). \<forall>x \<in> set (rank documents ts results).
           score r \<le> sr_score x))"
proof -
  let ?pos = "\<lambda>x. score x > 0"
  have "subseq (take 8 (filter ?pos results)) (filter ?pos results)"
    by (rule prefix_imp_subseq) (rule take_is_prefix)
  moreover have "subseq (filter ?pos results) results"
    by simp
  ultimately have "subseq (take 8 (filter ?pos results)) results"
    by (rule subseq_order.order_trans)
  then have 1: "\<exists>rs. subseq rs results \<and>
         rank documents ts results =
           map (\<lambda>r. \<lparr>document = List.find (\<lambda>d. toString (id_doc d) = ref r) documents,
                     sr_score = score r, terms = ts\<rparr>) rs"
    unfolding rank_def by blast
  have 2: "length (rank documents ts results) \<le> 8" by (simp add: rank_def)
  have 3: "length (rank documents ts results) = 8"
    if "8 \<le> length (filter ?pos results)"
    using that by (simp add: rank_def)
  have 4: "map sr_score (rank documents ts results) = map score (take 8 results) \<and>
        (\<forall>r \<in> set (drop 8 results). \<forall>x \<in> set (rank documents ts results).
           score r \<le> sr_score x)"
    if s: "sorted_wrt (\<lambda>a b. score a \<ge> score b) results"
      and l: "8 \<le> length (filter ?pos results)"
  proof -
    have t: "take 8 (filter ?pos results) = take 8 results"
      using s l by (rule take_filter_sorted)
    have a: "map sr_score (rank documents ts results) = map score (take 8 results)"
      by (simp add: rank_def t comp_def)
    have "sorted_wrt (\<lambda>a b. score a \<ge> score b) (take 8 results @ drop 8 results)"
      using s by simp
    then have "\<forall>y \<in> set (take 8 results). \<forall>r \<in> set (drop 8 results). score r \<le> score y"
      unfolding sorted_wrt_append by blast
    then have b: "\<forall>r \<in> set (drop 8 results). \<forall>x \<in> set (rank documents ts results).
           score r \<le> sr_score x"
      by (auto simp: rank_def t)
    from a b show ?thesis by blast
  qed
  from 1 2 3 4 show ?thesis by blast
qed

theorem rank_order_and_truncation_witness:
  "sorted_wrt (\<lambda>a b. score a \<ge> score b)
     [\<lparr>ref = ''1'', score = 9\<rparr>, \<lparr>ref = ''2'', score = 8\<rparr>, \<lparr>ref = ''3'', score = 7\<rparr>,
      \<lparr>ref = ''4'', score = 6\<rparr>, \<lparr>ref = ''5'', score = 5\<rparr>, \<lparr>ref = ''6'', score = 4\<rparr>,
      \<lparr>ref = ''7'', score = 3\<rparr>, \<lparr>ref = ''8'', score = 2\<rparr>, \<lparr>ref = ''9'', score = 1\<rparr>,
      \<lparr>ref = ''10'', score = 0\<rparr>]
   \<and> map sr_score (rank [] [''guide'']
     [\<lparr>ref = ''1'', score = 9\<rparr>, \<lparr>ref = ''2'', score = 8\<rparr>, \<lparr>ref = ''3'', score = 7\<rparr>,
      \<lparr>ref = ''4'', score = 6\<rparr>, \<lparr>ref = ''5'', score = 5\<rparr>, \<lparr>ref = ''6'', score = 4\<rparr>,
      \<lparr>ref = ''7'', score = 3\<rparr>, \<lparr>ref = ''8'', score = 2\<rparr>, \<lparr>ref = ''9'', score = 1\<rparr>,
      \<lparr>ref = ''10'', score = 0\<rparr>]) = [9, 8, 7, 6, 5, 4, 3, 2]"
proof -
  let ?rs = "[\<lparr>ref = ''1'', score = 9\<rparr>, \<lparr>ref = ''2'', score = 8\<rparr>, \<lparr>ref = ''3'', score = 7\<rparr>,
      \<lparr>ref = ''4'', score = 6\<rparr>, \<lparr>ref = ''5'', score = 5\<rparr>, \<lparr>ref = ''6'', score = 4\<rparr>,
      \<lparr>ref = ''7'', score = 3\<rparr>, \<lparr>ref = ''8'', score = 2\<rparr>, \<lparr>ref = ''9'', score = 1\<rparr>,
      \<lparr>ref = ''10'', score = 0\<rparr>]"
  have s: "sorted_wrt (\<lambda>a b. score a \<ge> score b) ?rs" by simp
  have l: "8 \<le> length (filter (\<lambda>x. score x > 0) ?rs)" by simp
  from rank_order_and_truncation[of ?rs "[]" "[''guide'']"] s l
  have "map sr_score (rank [] [''guide''] ?rs) = map score (take 8 ?rs)"
    by blast
  then have "map sr_score (rank [] [''guide''] ?rs) = [9, 8, 7, 6, 5, 4, 3, 2]"
    by simp
  with s show ?thesis by blast
qed

text \<open>
  C2. A result whose \<open>ref\<close> matches no identifier of the document table is not dropped.
  The claim that every entry of the output has a document fails: with the table holding
  the document 3 only, the result with \<open>ref\<close> 4 comes out as an entry without a
  document.
\<close>

theorem rank_missing_document_counterexample:
  "rank [\<lparr>id_doc = IdNumber 3, pageTitle = ''Install Guide'', sectionTitle = ''Setup'',
           sectionRoute = ''/docs/install#setup''\<rparr>]
        [''guide''] [\<lparr>ref = ''4'', score = 1\<rparr>]
     = [\<lparr>document = None, sr_score = 1, terms = [''guide'']\<rparr>]"
  by (simp add: rank_def natToString.simps digitChar_def)

text \<open>
  C2, as the code has it. The ranker does not fail on a \<open>ref\<close> without a document and
  keeps the result: when the result is among the first 8 of positive score, the output
  holds an entry for it with no document, its score and the terms, and the output has
  one entry for each of these first 8 results.
\<close>

theorem rank_keeps_unmatched:
  assumes "r \<in> set (take 8 (filter (\<lambda>x. score x > 0) results))"
    and "\<forall>d \<in> set documents. toString (id_doc d) \<noteq> ref r"
  shows "\<lparr>document = None, sr_score = score r, terms = ts\<rparr> \<in> set (rank documents ts results)
       \<and> length (rank documents ts results)
           = length (take 8 (filter (\<lambda>x. score x > 0) results))"
proof -
  from assms(2) have "List.find (\<lambda>d. toString (id_doc d) = ref r) documents = None"
    by (simp add: find_None_iff)
  with assms(1)
  have "\<lparr>document = None, sr_score = score r, terms = ts\<rparr> \<in> set (rank documents ts results)"
    unfolding rank_def by (force simp: image_iff)
  then show ?thesis by (simp add: rank_def)
qed

theorem rank_keeps_unmatched_witness:
  "\<lparr>document = None, sr_score = 1, terms = [''guide'']\<rparr>
     \<in> set (rank [\<lparr>id_doc = IdNumber 3, pageTitle = ''Install Guide'', sectionTitle = ''Setup'',
                    sectionRoute = ''/docs/install#setup''\<rparr>]
                 [''guide''] [\<lparr>ref = ''3'', score = 2\<rparr>, \<lparr>ref = ''4'', score = 1\<rparr>])
   \<and> length (rank [\<lparr>id_doc = IdNumber 3, pageTitle = ''Install Guide'', sectionTitle = ''Setup'',
                    sectionRoute = ''/docs/install#setup''\<rparr>]
                 [''guide''] [\<lparr>ref = ''3'', score = 2\<rparr>, \<lparr>ref = ''4'', score = 1\<rparr>]) = 2"
proof -
  let ?docs = "[\<lparr>id_doc = IdNumber 3, pageTitle = ''Install Guide'', sectionTitle = ''Setup'',
                 sectionRoute = ''/docs/install#setup''\<rparr>]"
  let ?rs = "[\<lparr>ref = ''3'', score = 2\<rparr>, \<lparr>ref = ''4'', score = 1\<rparr>]"
  have h1: "\<lparr>ref = ''4'', score = 1\<rparr> \<in> set (take 8 (filter (\<lambda>x. score x > 0) ?rs))"
    by simp
  have h2: "\<forall>d \<in> set ?docs. toString (id_doc d) \<noteq> ref \<lparr>ref = ''4'', score = 1\<rparr>"
    by (simp add: natToString.simps digitChar_def)
  from rank_keeps_unmatched[OF h1 h2, of "[''guide'']"]
  show ?thesis by simp
qed

section \<open>The URL of a selected result\<close>

text \<open>
  C7. For a selected result whose route is a path, or a path followed by \<open>#\<close> and a
  fragment, the URL pushed is the path, then \<open>?highlight=\<close> and the percent-encoded
  encoding of the result's terms, and then, when the route had a fragment, \<open>#\<close> and
  that fragment.
\<close>

theorem selected_url:
  assumes "document r = Some d"
    and "CHR ''#'' \<notin> set path" and "CHR ''#'' \<notin> set fragment"
  shows "(sectionRoute d = path \<longrightarrow>
            selected r = Inr (path @ ''?highlight='' @ encodeURIComponent (encode (terms r))))
       \<and> (fragment \<noteq> [] \<and> sectionRoute d = path @ ''#'' @ fragment \<longrightarrow>
            selected r = Inr (path @ ''?highlight='' @ encodeURIComponent (encode (terms r))
                               @ ''#'' @ fragment))"
proof -
  have a: "split (CHR ''#'') path = [path]"
    using assms(2) by (rule split_no_sep)
  have b: "split (CHR ''#'') (path @ ''#'' @ fragment) = [path, fragment]"
    using assms(2,3) by (simp add: split_first split_no_sep)
  show ?thesis
    using assms(1) a b by (simp add: selected_def selectedUrl_def)
qed

theorem selected_url_witness:
  "selected \<lparr>document = Some \<lparr>id_doc = IdNumber 3, pageTitle = ''Install Guide'',
                               sectionTitle = ''Setup'', sectionRoute = ''/docs/install#setup''\<rparr>,
              sr_score = 2, terms = [''install'', ''guide'']\<rparr>
     = Inr ''/docs/install?highlight=install~guide#setup''"
proof -
  let ?d = "\<lparr>id_doc = IdNumber 3, pageTitle = ''Install Guide'',
             sectionTitle = ''Setup'', sectionRoute = ''/docs/install#setup''\<rparr>"
  let ?r = "\<lparr>document = Some ?d, sr_score = 2, terms = [''install'', ''guide'']\<rparr>"
  have h1: "document ?r = Some ?d" by simp
  have h2: "CHR ''#'' \<notin> set ''/docs/install''" by simp
  have h3: "CHR ''#'' \<notin> set ''setup''" by simp
  have e: "encodeURIComponent (encode [''install'', ''guide'']) = ''install~guide''"
    by (simp add: encode_def escapeTerm_def encodeURIComponent_def uriUnreserved_def tilde_def)
  from selected_url[OF h1 h2 h3]
  have "selected ?r = Inr (''/docs/install'' @ ''?highlight=''
          @ encodeURIComponent (encode (terms ?r)) @ ''#'' @ ''setup'')"
    by simp
  then show ?thesis by (simp add: e)
qed

text \<open>A route that ends with \<open>#\<close> has an empty second piece, and no \<open>#\<close> is put
  back.\<close>

lemma selectedUrl_empty_fragment:
  "CHR ''#'' \<notin> set path \<Longrightarrow>
   selectedUrl (path @ ''#'') ts = path @ ''?highlight='' @ encodeURIComponent (encode ts)"
  using split_first[of "CHR ''#''" path "[]"] by (simp add: selectedUrl_def split_def)

text \<open>Selecting an entry without a document throws.\<close>

lemma selected_missing_document:
  "selected \<lparr>document = None, sr_score = 1, terms = [''guide'']\<rparr> = Inl TypeError"
  by (simp add: selected_def)

section \<open>The index is loaded once\<close>

lemma gate_inv_initial: "gate_inv initial"
  by (simp add: gate_inv_def initial_def)

lemma gate_inv_loadIndex: "gate_inv s \<Longrightarrow> gate_inv (loadIndex s)"
  by (auto simp: gate_inv_def loadIndex_def split: index_state.splits)

lemma gate_inv_step: "gate_inv s \<Longrightarrow> gate_inv (step s e)"
proof (cases e)
  case (Intent i)
  assume g: "gate_inv s"
  then have "gate_inv (s\<lparr>focusAfterIndexLoaded := True\<rparr>)"
    by (simp add: gate_inv_def split: index_state.splits)
  with g Intent show ?thesis
    by (cases i) (simp_all add: gate_inv_loadIndex)
next
  case Resolved
  assume "gate_inv s"
  with Resolved show ?thesis
    by (auto simp: gate_inv_def loadIndexResume_def split: index_state.splits)
next
  case Rejected
  assume "gate_inv s"
  with Rejected show ?thesis
    by (auto simp: gate_inv_def split: index_state.splits)
qed

lemma gate_inv_run: "gate_inv s \<Longrightarrow> gate_inv (run s evs)"
  unfolding run_def by (induction evs arbitrary: s) (simp_all add: gate_inv_step)

lemma run_append: "run s (evs @ evs') = run (run s evs) evs'"
  by (simp add: run_def)

lemma stateRank_loadIndex: "stateRank (indexState s) \<le> stateRank (indexState (loadIndex s))"
  by (simp add: loadIndex_def stateRank_def split: index_state.splits)

lemma stateRank_step: "stateRank (indexState s) \<le> stateRank (indexState (step s e))"
proof (cases e)
  case (Intent i)
  have "stateRank (indexState (s\<lparr>focusAfterIndexLoaded := True\<rparr>))
          \<le> stateRank (indexState (loadIndex (s\<lparr>focusAfterIndexLoaded := True\<rparr>)))"
    by (rule stateRank_loadIndex)
  with Intent show ?thesis
    by (cases i) (simp_all add: stateRank_loadIndex)
next
  case Resolved
  then show ?thesis
    by (simp add: loadIndexResume_def stateRank_def split: index_state.splits)
next
  case Rejected
  then show ?thesis by simp
qed

lemma stateRank_run: "stateRank (indexState s) \<le> stateRank (indexState (run s evs))"
proof (induction evs arbitrary: s)
  case Nil
  then show ?case by (simp add: run_def)
next
  case (Cons e evs)
  have "stateRank (indexState s) \<le> stateRank (indexState (step s e))"
    by (rule stateRank_step)
  also have "\<dots> \<le> stateRank (indexState (run (step s e) evs))"
    by (rule Cons.IH)
  finally show ?case by (simp add: run_def)
qed

lemma stuck_step:
  "indexState s = Loading \<Longrightarrow> pending s = 0 \<Longrightarrow>
   indexState (step s e) = Loading \<and> pending (step s e) = 0 \<and> fetches (step s e) = fetches s"
proof (cases e)
  case (Intent i)
  assume "indexState s = Loading" "pending s = 0"
  with Intent show ?thesis by (cases i) (simp_all add: loadIndex_def)
next
  case Resolved
  assume "indexState s = Loading" "pending s = 0"
  with Resolved show ?thesis by simp
next
  case Rejected
  assume "indexState s = Loading" "pending s = 0"
  with Rejected show ?thesis by simp
qed

lemma stuck_run:
  "indexState s = Loading \<Longrightarrow> pending s = 0 \<Longrightarrow>
   indexState (run s evs) = Loading \<and> fetches (run s evs) = fetches s"
proof (induction evs arbitrary: s)
  case Nil
  then show ?case by (simp add: run_def)
next
  case (Cons e evs)
  from stuck_step[OF Cons.prems, of e]
  have "indexState (run (step s e) evs) = Loading
          \<and> fetches (run (step s e) evs) = fetches (step s e)"
    and "fetches (step s e) = fetches s"
    using Cons.IH[of "step s e"] by simp_all
  then show ?case by (simp add: run_def)
qed

text \<open>
  C6. Whatever intents and promise settlements happen, in whatever order, at most one
  fetch of the index is ever started. The load state only moves forward through empty,
  loading and done: once it has left empty it never is empty again. When the load fails
  the state stays at loading for good, and no second fetch is started.
\<close>

theorem single_load:
  "fetches (run initial evs) \<le> 1
   \<and> stateRank (indexState (run initial evs))
       \<le> stateRank (indexState (run initial (evs @ evs')))
   \<and> (indexState (run initial evs) \<noteq> Empty \<longrightarrow>
        indexState (run initial (evs @ evs')) \<noteq> Empty)
   \<and> (0 < pending (run initial evs) \<longrightarrow>
        indexState (run initial (evs @ Rejected # evs')) = Loading \<and>
        fetches (run initial (evs @ Rejected # evs')) = 1)"
proof -
  let ?s = "run initial evs"
  have inv: "gate_inv ?s"
    by (rule gate_inv_run) (rule gate_inv_initial)
  have 1: "fetches ?s \<le> 1"
    using inv by (auto simp: gate_inv_def split: index_state.splits)
  have 2: "stateRank (indexState ?s) \<le> stateRank (indexState (run initial (evs @ evs')))"
    by (simp add: run_append stateRank_run)
  have 3: "indexState (run initial (evs @ evs')) \<noteq> Empty" if "indexState ?s \<noteq> Empty"
    using that 2 by (auto simp: stateRank_def split: index_state.splits)
  have 4: "indexState (run initial (evs @ Rejected # evs')) = Loading \<and>
        fetches (run initial (evs @ Rejected # evs')) = 1" if p: "0 < pending ?s"
  proof -
    from inv p have l: "indexState ?s = Loading" and p1: "pending ?s = 1" and f: "fetches ?s = 1"
      by (auto simp: gate_inv_def split: index_state.splits)
    let ?t = "step ?s Rejected"
    from l p1 f have "indexState ?t = Loading" "pending ?t = 0" "fetches ?t = 1"
      by simp_all
    with stuck_run[of ?t evs']
    have "indexState (run ?t evs') = Loading \<and> fetches (run ?t evs') = 1" by simp
    moreover have "run initial (evs @ Rejected # evs') = run ?t evs'"
      by (simp add: run_def)
    ultimately show ?thesis by simp
  qed
  from 1 2 3 4 show ?thesis by blast
qed

theorem single_load_witness:
  "0 < pending (run initial [Intent MouseOver, Intent Focus, Intent IconClick])
   \<and> indexState (run initial [Intent MouseOver, Intent Focus, Intent IconClick]) \<noteq> Empty
   \<and> fetches (run initial [Intent MouseOver, Intent Focus, Intent IconClick]) = 1
   \<and> indexState (run initial ([Intent MouseOver, Intent Focus, Intent IconClick]
                                @ Rejected # [Intent Focus, Resolved])) = Loading
   \<and> fetches (run initial ([Intent MouseOver, Intent Focus, Intent IconClick]
                             @ Rejected # [Intent Focus, Resolved])) = 1"
proof -
  let ?evs = "[Intent MouseOver, Intent Focus, Intent IconClick]"
  have r: "run initial ?evs
             = \<lparr>indexState = Loading, focusAfterIndexLoaded = True, fetches = 1, pending = 1\<rparr>"
    by (simp add: run_def initial_def loadIndex_def)
  then have h: "0 < pending (run initial ?evs)" and e: "indexState (run initial ?evs) \<noteq> Empty"
    and f: "fetches (run initial ?evs) = 1"
    by simp_all
  from single_load[of ?evs "[Intent Focus, Resolved]"] h
  have "indexState (run initial (?evs @ Rejected # [Intent Focus, Resolved])) = Loading \<and>
        fetches (run initial (?evs @ Rejected # [Intent Focus, Resolved])) = 1"
    by blast
  with h e f show ?thesis by blast
qed

end
